theory Spec2Isabelle
  imports Main "HOL-Library.AList"
begin

section \<open>The schema store\<close>

text \<open>
  Modelled from the spec: the class \<open>Entity\<close> (module \<open>entity\<close>) is imported by
  \<open>schema.py\<close> and is not part of the source at hand. The resolvers read three of its
  attributes: \<open>fields\<close> (a dict from field name to field descriptor, of which only the
  presence of a key is ever tested), \<open>field_aliases\<close> (alias to field name) and
  \<open>field_tags\<close> (tag to ordered list of field names). Descriptors are opaque, so
  they are \<open>unit\<close> here. The attribute \<open>fields\<close> is \<open>fields'\<close>: a record
  cannot have a field of that name.
\<close>

record entity =
  fields' :: "string \<rightharpoonup> unit"
  field_aliases :: "string \<rightharpoonup> string"
  field_tags :: "string \<rightharpoonup> string list"

text \<open>The attributes \<open>Schema.__init__\<close> sets up and the resolvers read.\<close>

record schema =
  entities :: "string \<rightharpoonup> entity"
  entity_aliases :: "string \<rightharpoonup> string"
  entity_tags :: "string \<rightharpoonup> string list"

text \<open>
  The keyword arguments of the field resolvers, with the defaults of their signatures:
  \<open>auto_prefix=True, implicit_aliases=True, strict=False\<close>.
\<close>

record options =
  auto_prefix :: bool
  implicit_aliases :: bool
  strict :: bool

definition default_options :: options where
  "default_options = \<lparr>auto_prefix = True, implicit_aliases = True, strict = False\<rparr>"

text \<open>
  Every \<open>raise\<close> of the resolvers, and the two exceptions Python itself raises in them:
  \<open>spec[0]\<close> on the empty string and the membership test of an unhashable value in
  a dict. The four \<open>ValueError\<close>s are told apart by their message.
\<close>

datatype error =
    IndexError
  | UnknownEntityOperation string
  | NotAnEntityType string
  | UnknownFieldOperation string string
  | NotAField string string
  | UnhashableType

section \<open>Strings\<close>

text \<open>
  \<open>str.isalnum\<close> on one character. Strings are byte strings here and the test is
  the one of the C locale: an ASCII letter or digit.
\<close>

definition isalnum :: "char \<Rightarrow> bool" where
  "isalnum c =
     (let n = (of_char c :: nat)
      in (48 \<le> n \<and> n \<le> 57) \<or> (65 \<le> n \<and> n \<le> 90) \<or> (97 \<le> n \<and> n \<le> 122))"

text \<open>
  \<open>s.split('.')\<close>: the pieces between the dots, at least one, possibly empty. The
  split of the rest is never the empty list, so the first case of the inner match is
  never taken.
\<close>

fun split_dot :: "string \<Rightarrow> string list" where
  "split_dot [] = [[]]"
| "split_dot (c # cs) =
     (if c = CHR ''.'' then [] # split_dot cs
      else (case split_dot cs of
              [] \<Rightarrow> [[c]]
            | p # ps \<Rightarrow> (c # p) # ps))"

text \<open>\<open>sep.join(xs)\<close>.\<close>

fun join :: "string \<Rightarrow> string list \<Rightarrow> string" where
  "join sep [] = []"
| "join sep [x] = x"
| "join sep (x # y # ys) = x @ sep @ join sep (y # ys)"

section \<open>The entity resolver\<close>

definition resolve_entity :: "schema \<Rightarrow> string \<Rightarrow> bool \<Rightarrow> bool \<Rightarrow> error + string list" where
  "resolve_entity s entity_spec implicit_aliases' strict' =
     (case entity_spec of
        [] \<Rightarrow> Inl IndexError
      | op # rest \<Rightarrow>
          if op = CHR ''!'' then Inr [rest]
          else if op = CHR ''#'' then
            Inr (case entity_tags s rest of None \<Rightarrow> [] | Some tagged \<Rightarrow> tagged)
          else if op = CHR ''$'' then
            (case entity_aliases s rest of Some a \<Rightarrow> Inr [a] | None \<Rightarrow> Inr [])
          else if \<not> isalnum op then Inl (UnknownEntityOperation entity_spec)
          else if entity_spec \<in> dom (entities s) then Inr [entity_spec]
          else if implicit_aliases' \<and> entity_spec \<in> dom (entity_aliases s) then
            Inr [the (entity_aliases s entity_spec)]
          else if strict' then Inl (NotAnEntityType entity_spec)
          else Inr [entity_spec])"

section \<open>The field resolver\<close>

text \<open>\<open>Schema._resolve_field\<close>: one field spec against one entity type.\<close>

definition resolve_field_single :: "schema \<Rightarrow> string \<Rightarrow> string \<Rightarrow> options \<Rightarrow> error + string list" where
  "resolve_field_single s entity_spec field_spec kw =
     (case entities s entity_spec of
        None \<Rightarrow> Inl (NotAnEntityType entity_spec)
      | Some entity \<Rightarrow>
          if field_spec = ''id'' \<or> field_spec = ''type'' then Inr [field_spec]
          else (case field_spec of
            [] \<Rightarrow> Inl IndexError
          | op # rest \<Rightarrow>
              if op = CHR ''!'' then Inr [rest]
              else if op = CHR ''#'' then
                Inr (case field_tags entity rest of None \<Rightarrow> [] | Some tagged \<Rightarrow> tagged)
              else if op = CHR ''$'' then
                (case field_aliases entity rest of
                   Some a \<Rightarrow> Inr [a]
                 | None \<Rightarrow> Inr [field_spec])
              else if \<not> isalnum op then Inl (UnknownFieldOperation entity_spec field_spec)
              else if field_spec \<in> dom (fields' entity) then Inr [field_spec]
              else if auto_prefix kw \<and> (''sg_'' @ field_spec) \<in> dom (fields' entity) then
                Inr [''sg_'' @ field_spec]
              else if implicit_aliases kw \<and> field_spec \<in> dom (field_aliases entity) then
                Inr [the (field_aliases entity field_spec)]
              else if strict kw then Inl (NotAField field_spec entity_spec)
              else Inr [field_spec]))"

text \<open>
  A field spec is a string, or a list or tuple of field specs (the isinstance test
  at the head of \<open>resolve_field\<close>, which recurses on the members).
\<close>

datatype field_spec = Spec string | Specs "field_spec list"

text \<open>\<open>xrange(0, n, 2)\<close>.\<close>

definition xrange_by_2 :: "nat \<Rightarrow> nat list" where
  "xrange_by_2 n = filter even [0..<n]"

text \<open>
  The list \<open>spec_pairs\<close>: one pair for every even index \<open>i\<close> of \<open>spec_parts\<close>,
  of the token before it and the token at it. The first pair is built with
  \<open>None\<close> and at once overwritten with the root entity type; the two steps are
  one here.
\<close>

definition spec_pairs :: "string \<Rightarrow> string list \<Rightarrow> (string \<times> string) list" where
  "spec_pairs entity_type spec_parts =
     map (\<lambda>i. (if i \<noteq> 0 then spec_parts ! (i - 1) else entity_type, spec_parts ! i))
       (xrange_by_2 (length spec_parts))"

text \<open>
  The inner loops of the pair loop: for every entity type in turn, resolve the field
  spec and append one pair per field name to \<open>resolved_pairs\<close>.
\<close>

fun resolve_in_entity_types ::
  "schema \<Rightarrow> string list \<Rightarrow> string \<Rightarrow> options \<Rightarrow> (string \<times> string) list
   \<Rightarrow> error + (string \<times> string) list" where
  "resolve_in_entity_types s [] field_spec kw resolved_pairs = Inr resolved_pairs"
| "resolve_in_entity_types s (entity_type # entity_types) field_spec kw resolved_pairs =
     (case resolve_field_single s entity_type field_spec kw of
        Inl e \<Rightarrow> Inl e
      | Inr field_names \<Rightarrow>
          resolve_in_entity_types s entity_types field_spec kw
            (resolved_pairs @ map (Pair entity_type) field_names))"

text \<open>The pair loop, with \<open>resolved_pair_sets\<close> as its accumulator.\<close>

fun resolve_pairs ::
  "schema \<Rightarrow> options \<Rightarrow> (string \<times> string) list \<Rightarrow> (string \<times> string) list list
   \<Rightarrow> error + (string \<times> string) list list" where
  "resolve_pairs s kw [] resolved_pair_sets = Inr resolved_pair_sets"
| "resolve_pairs s kw ((entity_spec, field_spec) # pairs) resolved_pair_sets =
     (case resolve_entity s entity_spec (implicit_aliases kw) (strict kw) of
        Inl e \<Rightarrow> Inl e
      | Inr entity_types \<Rightarrow>
          (case resolve_in_entity_types s entity_types field_spec kw [] of
             Inl e \<Rightarrow> Inl e
           | Inr resolved_pairs \<Rightarrow>
               resolve_pairs s kw pairs (resolved_pair_sets @ [resolved_pairs])))"

text \<open>
  \<open>itertools.product(*pools)\<close>, as the Python library documents it:
  \<^verbatim>\<open>result = [[]]
  for pool in pools: result = [x + [y] for x in result for y in pool]\<close>
\<close>

definition itertools_product :: "'a list list \<Rightarrow> 'a list list" where
  "itertools_product pools =
     foldl (\<lambda>result pool. concat (map (\<lambda>x. map (\<lambda>y. x @ [y]) pool) result)) [[]] pools"

text \<open>The string built for one member of the product.\<close>

definition render_path :: "(string \<times> string) list \<Rightarrow> string" where
  "render_path pairs =
     join ''.''
       (map (\<lambda>(i, (entity_type, field_name)).
               (if i \<noteq> 0 then entity_type @ ''.'' else '''') @ field_name)
          (enumerate 0 pairs))"

fun resolve_field :: "schema \<Rightarrow> string \<Rightarrow> field_spec \<Rightarrow> options \<Rightarrow> error + string list"
and resolve_field_members ::
  "schema \<Rightarrow> string \<Rightarrow> field_spec list \<Rightarrow> options \<Rightarrow> string list \<Rightarrow> error + string list"
where
  "resolve_field s entity_type (Specs xs) kw = resolve_field_members s entity_type xs kw []"
| "resolve_field s entity_type (Spec field_spec) kw =
     (let spec_parts = split_dot field_spec
      in if length spec_parts = 1 then resolve_field_single s entity_type field_spec kw
         else (case resolve_pairs s kw (spec_pairs entity_type spec_parts) [] of
                 Inl e \<Rightarrow> Inl e
               | Inr resolved_pair_sets \<Rightarrow>
                   Inr (map render_path (itertools_product resolved_pair_sets))))"
| "resolve_field_members s entity_type [] kw res = Inr res"
| "resolve_field_members s entity_type (x # xs) kw res =
     (case resolve_field s entity_type x kw of
        Inl e \<Rightarrow> Inl e
      | Inr r \<Rightarrow> resolve_field_members s entity_type xs kw (res @ r))"

section \<open>The structure rewriter\<close>

text \<open>
  The values \<open>resolve_structure\<close> tells apart: lists and tuples, dicts, and everything
  else, which it returns as it is. A dict is the list of its items in the order
  \<open>iteritems\<close> yields them; its keys are distinct and, in the data rewritten here (decoded
  JSON, query filters), strings.
\<close>

datatype pyval =
    PNone
  | PBool bool
  | PInt int
  | PStr string
  | PList "pyval list"
  | PTuple "pyval list"
  | PDict "(string \<times> pyval) list"

text \<open>Truth value of a Python object, as \<open>or\<close> and \<open>and\<close> test it.\<close>

fun truthy :: "pyval \<Rightarrow> bool" where
  "truthy PNone = False"
| "truthy (PBool b) = b"
| "truthy (PInt i) = (i \<noteq> 0)"
| "truthy (PStr t) = (t \<noteq> [])"
| "truthy (PList xs) = (xs \<noteq> [])"
| "truthy (PTuple xs) = (xs \<noteq> [])"
| "truthy (PDict items) = (items \<noteq> [])"

text \<open>
  Whether \<open>hash\<close> accepts the object: lists and dicts are refused, a tuple is hashed
  through its members.
\<close>

fun hashable :: "pyval \<Rightarrow> bool" where
  "hashable (PList xs) = False"
| "hashable (PDict items) = False"
| "hashable (PTuple xs) = list_all hashable xs"
| "hashable x = True"

text \<open>
  \<open>entity_type or x.get('type')\<close>, for the keyword argument \<open>entity_type\<close> (a type
  name, or \<open>None\<close>) and the items of the dict \<open>x\<close>.
\<close>

definition entity_type_or_get :: "string option \<Rightarrow> (string \<times> pyval) list \<Rightarrow> pyval" where
  "entity_type_or_get entity_type x =
     (if entity_type \<noteq> None \<and> entity_type \<noteq> Some [] then PStr (the entity_type)
      else (case map_of x ''type'' of None \<Rightarrow> PNone | Some v \<Rightarrow> v))"

text \<open>
  The test \<open>entity_type and entity_type in self.entities\<close>: the name of the known
  entity type when it holds, \<open>None\<close> when it does not; looking up an unhashable
  object in the dict raises \<open>TypeError\<close>. The keys of \<open>entities\<close> are strings, so
  only a string can be among them.
\<close>

definition known_entity :: "schema \<Rightarrow> pyval \<Rightarrow> error + string option" where
  "known_entity s entity_type =
     (if \<not> truthy entity_type then Inr None
      else if \<not> hashable entity_type then Inl UnhashableType
      else (case entity_type of
              PStr t \<Rightarrow> if t \<in> dom (entities s) then Inr (Some t) else Inr None
            | _ \<Rightarrow> Inr None))"

text \<open>
  \<open>new_values[field] = value\<close> on the items of a dict: a key already there keeps its
  place and takes the new value, a new key goes to the end.
\<close>

definition dict_set :: "(string \<times> pyval) list \<Rightarrow> string \<Rightarrow> pyval \<Rightarrow> (string \<times> pyval) list" where
  "dict_set new_values field v = AList.update field v new_values"

text \<open>
  \<open>resolve_structure\<close>, with its loops: \<open>resolve_members\<close> is the generator over a
  list or tuple, \<open>resolve_record\<close> the loop over the items of an entity record
  (accumulating \<open>new_values\<close>), \<open>resolve_values\<close> the dict comprehension of the
  other dicts.
\<close>

fun resolve_structure :: "schema \<Rightarrow> string option \<Rightarrow> options \<Rightarrow> pyval \<Rightarrow> error + pyval"
and resolve_members :: "schema \<Rightarrow> options \<Rightarrow> pyval list \<Rightarrow> error + pyval list"
and resolve_record ::
  "schema \<Rightarrow> string \<Rightarrow> options \<Rightarrow> (string \<times> pyval) list \<Rightarrow> (string \<times> pyval) list
   \<Rightarrow> error + (string \<times> pyval) list"
and resolve_values :: "schema \<Rightarrow> options \<Rightarrow> (string \<times> pyval) list \<Rightarrow> error + (string \<times> pyval) list"
where
  "resolve_structure s entity_type kw (PList xs) =
     (case resolve_members s kw xs of Inl e \<Rightarrow> Inl e | Inr ys \<Rightarrow> Inr (PList ys))"
| "resolve_structure s entity_type kw (PTuple xs) =
     (case resolve_members s kw xs of Inl e \<Rightarrow> Inl e | Inr ys \<Rightarrow> Inr (PTuple ys))"
| "resolve_structure s entity_type kw (PDict x) =
     (case known_entity s (entity_type_or_get entity_type x) of
        Inl e \<Rightarrow> Inl e
      | Inr (Some entity_type') \<Rightarrow>
          (case resolve_record s entity_type' kw x [] of
             Inl e \<Rightarrow> Inl e
           | Inr new_values \<Rightarrow> Inr (PDict new_values))
      | Inr None \<Rightarrow>
          (case resolve_values s kw x of
             Inl e \<Rightarrow> Inl e
           | Inr new_values \<Rightarrow> Inr (PDict new_values)))"
| "resolve_structure s entity_type kw PNone = Inr PNone"
| "resolve_structure s entity_type kw (PBool b) = Inr (PBool b)"
| "resolve_structure s entity_type kw (PInt i) = Inr (PInt i)"
| "resolve_structure s entity_type kw (PStr t) = Inr (PStr t)"
| "resolve_members s kw [] = Inr []"
| "resolve_members s kw (x # xs) =
     (case resolve_structure s None kw x of
        Inl e \<Rightarrow> Inl e
      | Inr y \<Rightarrow>
          (case resolve_members s kw xs of Inl e \<Rightarrow> Inl e | Inr ys \<Rightarrow> Inr (y # ys)))"
| "resolve_record s entity_type kw [] new_values = Inr new_values"
| "resolve_record s entity_type kw ((field_spec, v) # items) new_values =
     (case resolve_structure s None default_options v of
        Inl e \<Rightarrow> Inl e
      | Inr v' \<Rightarrow>
          (case resolve_field s entity_type (Spec field_spec) kw of
             Inl e \<Rightarrow> Inl e
           | Inr field_names \<Rightarrow>
               resolve_record s entity_type kw items
                 (foldl (\<lambda>new_values' field. dict_set new_values' field v') new_values field_names)))"
| "resolve_values s kw [] = Inr []"
| "resolve_values s kw ((k, v) # items) =
     (case resolve_structure s None kw v of
        Inl e \<Rightarrow> Inl e
      | Inr v' \<Rightarrow>
          (case resolve_values s kw items of
             Inl e \<Rightarrow> Inl e
           | Inr new_values \<Rightarrow> Inr ((k, v') # new_values)))"

section \<open>The words of the specification\<close>

text \<open>
  The path of one combination of hops, as the specification words it: the first hop
  contributes its field name only, each later hop the entity type, a dot and the field
  name, and the segments are joined with dots.
\<close>

fun spec_path :: "(string \<times> string) list \<Rightarrow> string" where
  "spec_path [] = []"
| "spec_path ((entity_type, field_name) # hops) =
     join ''.'' (field_name # map (\<lambda>(entity_type, field_name). entity_type @ ''.'' @ field_name) hops)"

text \<open>
  The candidate pairs of one hop: an outer loop over the entity candidates, an inner
  loop over the field candidates of each.
\<close>

definition hop_candidates :: "string list \<Rightarrow> (string \<Rightarrow> string list) \<Rightarrow> (string \<times> string) list" where
  "hop_candidates entity_names field_names =
     concat (map (\<lambda>entity_type. map (Pair entity_type) (field_names entity_type)) entity_names)"

text \<open>
  A plain field name: not empty, starting with a letter or digit, without a dot. A key
  is canonical for an entity type when it is \<open>id\<close> or \<open>type\<close>, or a plain name among
  the fields of the entity type.
\<close>

definition plain_name :: "string \<Rightarrow> bool" where
  "plain_name k = (k \<noteq> [] \<and> isalnum (hd k) \<and> CHR ''.'' \<notin> set k)"

definition canonical_field :: "schema \<Rightarrow> string \<Rightarrow> string \<Rightarrow> bool" where
  "canonical_field s entity_type k =
     (k = ''id'' \<or> k = ''type'' \<or>
      (plain_name k \<and>
       (case entities s entity_type of None \<Rightarrow> False | Some entity \<Rightarrow> k \<in> dom (fields' entity))))"

text \<open>
  Every key that \<open>resolve_structure\<close> resolves is canonical: in every dict that it
  takes for an entity record, at any depth, all keys are canonical for the entity type
  of the record.
\<close>

fun keys_canonical :: "schema \<Rightarrow> pyval \<Rightarrow> bool" where
  "keys_canonical s (PList xs) = list_all (keys_canonical s) xs"
| "keys_canonical s (PTuple xs) = list_all (keys_canonical s) xs"
| "keys_canonical s (PDict x) =
     (list_all (\<lambda>item. keys_canonical s (snd item)) x \<and>
      (case known_entity s (entity_type_or_get None x) of
         Inr (Some entity_type) \<Rightarrow> list_all (\<lambda>item. canonical_field s entity_type (fst item)) x
       | _ \<Rightarrow> True))"
| "keys_canonical s x = True"

text \<open>The keys of every dict in the value are distinct, as they are in a Python dict.\<close>

fun distinct_keys :: "pyval \<Rightarrow> bool" where
  "distinct_keys (PList xs) = list_all distinct_keys xs"
| "distinct_keys (PTuple xs) = list_all distinct_keys xs"
| "distinct_keys (PDict x) = (distinct (map fst x) \<and> list_all (\<lambda>item. distinct_keys (snd item)) x)"
| "distinct_keys x = True"

text \<open>
  The hops of a dotted spec, as the specification words it: the tokens are paired two
  at a time into an entity spec and a field spec; the entity spec of the first pair is
  the root entity type, that of every later pair the token right before its field
  spec. A token left over at the end, after the last field spec, starts no pair.
\<close>

fun spec_hops :: "string \<Rightarrow> string list \<Rightarrow> (string \<times> string) list" where
  "spec_hops entity_spec [] = []"
| "spec_hops entity_spec [field_spec] = [(entity_spec, field_spec)]"
| "spec_hops entity_spec (field_spec # next_entity_spec # tokens) =
     (entity_spec, field_spec) # spec_hops next_entity_spec tokens"

text \<open>
  What an entity record does with one item, as the specification words it: the value is
  rewritten by a recursive call that passes no entity type and no options, so under the
  default options; the key is resolved by the field resolver against the entity type,
  under the options of the caller. \<open>r\<close> is the pair of the resolved names and the
  rewritten value.
\<close>

definition record_item ::
  "schema \<Rightarrow> string \<Rightarrow> options \<Rightarrow> string \<times> pyval \<Rightarrow> string list \<times> pyval \<Rightarrow> bool" where
  "record_item s entity_type kw item r =
     (resolve_structure s None default_options (snd item) = Inr (snd r)
      \<and> resolve_field s entity_type (Spec (fst item)) kw = Inr (fst r))"

text \<open>
  The writes of an entity record, in order: for every item, the rewritten value under
  each of the resolved names. In the output mapping a later write wins, so the mapping
  is \<open>map_of\<close> of the reversed list.
\<close>

definition written_items :: "(string list \<times> pyval) list \<Rightarrow> (string \<times> pyval) list" where
  "written_items rs = concat (map (\<lambda>(names, v'). map (\<lambda>name. (name, v')) names) rs)"

section \<open>A store to run the resolvers on\<close>

text \<open>
  One entity type with fields, aliases and tags that collide with the structural
  names \<open>id\<close> and \<open>type\<close>, three bare entity types for a tagged relation, one
  entity alias and two entity tags, the second with a repeated member.
\<close>

definition no_entity :: entity where
  "no_entity = \<lparr>fields' = Map.empty, field_aliases = Map.empty, field_tags = Map.empty\<rparr>"

definition example_shot :: entity where
  "example_shot =
     \<lparr>fields' = [''code'' \<mapsto> (), ''sg_status_list'' \<mapsto> (), ''sg_id'' \<mapsto> (), ''sg_type'' \<mapsto> (),
                 ''sg_cut_in'' \<mapsto> ()],
      field_aliases = [''sg_status'' \<mapsto> ''sg_status_list'', ''id'' \<mapsto> ''code'', ''type'' \<mapsto> ''code''],
      field_tags = [''id'' \<mapsto> [''code''], ''type'' \<mapsto> [''code'', ''sg_cut_in'']]\<rparr>"

definition example_schema :: schema where
  "example_schema =
     \<lparr>entities =
        [''Shot'' \<mapsto> example_shot,
         ''A'' \<mapsto> no_entity,
         ''B'' \<mapsto> no_entity\<lparr>field_aliases := [''field'' \<mapsto> ''x'']\<rparr>,
         ''C'' \<mapsto> no_entity\<lparr>field_aliases := [''field'' \<mapsto> ''y'']\<rparr>],
      entity_aliases = [''shot'' \<mapsto> ''Shot''],
      entity_tags = [''t'' \<mapsto> [''B'', ''C''], ''tt'' \<mapsto> [''B'', ''C'', ''B'']]\<rparr>"

text \<open>A store with a field whose name starts with the escape sigil.\<close>

definition sigil_task :: entity where
  "sigil_task =
     \<lparr>fields' = [''type'' \<mapsto> (), ''!a'' \<mapsto> (), ''sg_a'' \<mapsto> ()],
      field_aliases = Map.empty, field_tags = Map.empty\<rparr>"

definition sigil_schema :: schema where
  "sigil_schema =
     \<lparr>entities = [''Task'' \<mapsto> sigil_task], entity_aliases = Map.empty, entity_tags = Map.empty\<rparr>"

text \<open>
  Options with \<open>strict\<close> on; a record with canonical keys only; a record with a key
  that \<open>strict\<close> refuses; a record holding the latter as a value.
\<close>

definition strict_options :: options where
  "strict_options = \<lparr>auto_prefix = True, implicit_aliases = True, strict = True\<rparr>"

definition example_record :: pyval where
  "example_record =
     PDict [(''type'', PStr ''Shot''),
            (''code'', PList [PDict [(''type'', PStr ''Shot''), (''id'', PInt 3), (''sg_cut_in'', PInt 1)]]),
            (''sg_status_list'', PStr ''ip'')]"

definition loose_record :: pyval where
  "loose_record = PDict [(''type'', PStr ''Shot''), (''nope'', PInt 1)]"

definition nested_items :: "(string \<times> pyval) list" where
  "nested_items = [(''type'', PStr ''Shot''), (''code'', loose_record)]"

text \<open>A record with a tag key that resolves to two names, one of which a later key takes.\<close>

definition tagged_items :: "(string \<times> pyval) list" where
  "tagged_items = [(''type'', PStr ''Shot''), (''#type'', PInt 1), (''cut_in'', PInt 2)]"

section \<open>Single field specs\<close>

lemma split_dot_no_dot: "CHR ''.'' \<notin> set f \<Longrightarrow> split_dot f = [f]"
  by (induction f) auto

lemma resolve_field_plain:
  "CHR ''.'' \<notin> set f \<Longrightarrow> resolve_field s E (Spec f) kw = resolve_field_single s E f kw"
  by (simp add: split_dot_no_dot)

text \<open>
  Claim C6. For an entity type \<open>E\<close> of the store and any options, \<open>resolve_field\<close>
  returns \<open>["id"]\<close> for the spec \<open>"id"\<close> and \<open>["type"]\<close> for the spec \<open>"type"\<close>,
  whatever aliases, tags and prefixed fields \<open>E\<close> has under these names.
\<close>

theorem resolve_field_id_type:
  assumes "E \<in> dom (entities s)"
  shows "resolve_field s E (Spec ''id'') kw = Inr [''id'']
       \<and> resolve_field s E (Spec ''type'') kw = Inr [''type'']"
  using assms by (auto simp: resolve_field_single_def)

theorem resolve_field_id_type_witness:
  "''Shot'' \<in> dom (entities example_schema)
   \<and> field_aliases example_shot ''id'' = Some ''code''
   \<and> ''sg_id'' \<in> dom (fields' example_shot)
   \<and> resolve_field example_schema ''Shot'' (Spec ''id'')
        \<lparr>auto_prefix = True, implicit_aliases = True, strict = True\<rparr> = Inr [''id'']
   \<and> resolve_field example_schema ''Shot'' (Spec ''type'')
        \<lparr>auto_prefix = True, implicit_aliases = True, strict = True\<rparr> = Inr [''type'']"
proof -
  have h: "''Shot'' \<in> dom (entities example_schema)"
    by (simp add: example_schema_def)
  show ?thesis
    using h resolve_field_id_type [OF h, of "\<lparr>auto_prefix = True, implicit_aliases = True, strict = True\<rparr>"]
    by (simp add: example_shot_def)
qed

text \<open>
  Claim C7. Against an entity type that is not a key of \<open>entities\<close>, the single-field
  resolver raises the \<open>ValueError\<close> "is not an entity type" for every field spec and
  every choice of options: no part of the field spec is looked at before.
\<close>

theorem unknown_entity_type_fails:
  assumes "E \<notin> dom (entities s)"
  shows "resolve_field_single s E f kw = Inl (NotAnEntityType E)"
  using assms by (auto simp: resolve_field_single_def split: option.splits)

theorem unknown_entity_type_fails_witness:
  "''Asset'' \<notin> dom (entities example_schema)
   \<and> resolve_field_single example_schema ''Asset'' ''code'' default_options = Inl (NotAnEntityType ''Asset'')
   \<and> resolve_field_single example_schema ''Asset'' [] default_options = Inl (NotAnEntityType ''Asset'')
   \<and> resolve_field_single example_schema ''Asset'' ''%x'' default_options = Inl (NotAnEntityType ''Asset'')"
proof -
  have h: "''Asset'' \<notin> dom (entities example_schema)"
    by (simp add: example_schema_def)
  show ?thesis
    using h unknown_entity_type_fails [OF h, of "''code''" default_options]
      unknown_entity_type_fails [OF h, of "[]" default_options]
      unknown_entity_type_fails [OF h, of "''%x''" default_options]
    by simp
qed

text \<open>
  Claim C4, as the code has it. An entity spec \<open>$A\<close> whose \<open>A\<close> is no entity alias
  resolves to the empty list. A field spec \<open>$A\<close> whose \<open>A\<close> is no field alias of the
  known entity type resolves to the one-element list of the spec itself, sigil
  included: \<open>["$A"]\<close>.
\<close>

theorem alias_miss_asymmetry:
  shows "(A \<notin> dom (entity_aliases s) \<longrightarrow> resolve_entity s (CHR ''$'' # A) ia st = Inr [])
       \<and> (entities s E = Some e \<and> A \<notin> dom (field_aliases e) \<longrightarrow>
            resolve_field_single s E (CHR ''$'' # A) kw = Inr [CHR ''$'' # A])"
  by (auto simp: resolve_entity_def resolve_field_single_def split: option.splits)

theorem alias_miss_asymmetry_witness:
  "''nope'' \<notin> dom (entity_aliases example_schema)
   \<and> resolve_entity example_schema ''$nope'' True False = Inr []
   \<and> entities example_schema ''Shot'' = Some example_shot
   \<and> ''nope'' \<notin> dom (field_aliases example_shot)
   \<and> resolve_field_single example_schema ''Shot'' ''$nope'' default_options = Inr [''$nope'']"
proof -
  have h1: "''nope'' \<notin> dom (entity_aliases example_schema)"
    by (simp add: example_schema_def)
  have h2: "entities example_schema ''Shot'' = Some example_shot"
    by (simp add: example_schema_def)
  have h3: "''nope'' \<notin> dom (field_aliases example_shot)"
    by (simp add: example_shot_def)
  show ?thesis
    using h1 h2 h3
      alias_miss_asymmetry [of "''nope''" example_schema True False "''Shot''" example_shot default_options]
    by simp
qed

text \<open>The result of the field alias miss is not \<open>[A]\<close>, the alias name without the sigil.\<close>

theorem alias_miss_counterexample:
  "entities example_schema ''Shot'' = Some example_shot
   \<and> ''nope'' \<notin> dom (field_aliases example_shot)
   \<and> resolve_field_single example_schema ''Shot'' ''$nope'' default_options \<noteq> Inr [''nope'']"
  by (simp add: example_schema_def example_shot_def resolve_field_single_def)

text \<open>
  Claim C5. Let \<open>foo\<close> be a plain field spec (it starts with a letter or digit, has no
  dot, and is neither \<open>id\<close> nor \<open>type\<close>) that is no field of the known entity type
  \<open>E\<close>, while \<open>sg_foo\<close> is one. With \<open>auto_prefix\<close> on, \<open>resolve_field\<close> returns
  \<open>["sg_foo"]\<close>; with \<open>auto_prefix\<close> and \<open>strict\<close> off and \<open>foo\<close> no field alias of
  \<open>E\<close>, it returns \<open>["foo"]\<close>.
\<close>

theorem auto_prefix_convention:
  assumes "entities s E = Some e"
    and "foo \<noteq> []" and "isalnum (hd foo)" and "CHR ''.'' \<notin> set foo"
    and "foo \<noteq> ''id''" and "foo \<noteq> ''type''"
    and "foo \<notin> dom (fields' e)" and "''sg_'' @ foo \<in> dom (fields' e)"
  shows "(auto_prefix kw \<longrightarrow> resolve_field s E (Spec foo) kw = Inr [''sg_'' @ foo])
       \<and> (\<not> auto_prefix kw \<and> \<not> strict kw \<and> foo \<notin> dom (field_aliases e) \<longrightarrow>
            resolve_field s E (Spec foo) kw = Inr [foo])"
proof -
  obtain c rest where foo: "foo = c # rest"
    using assms(2) by (cases foo) auto
  have c: "isalnum c" "c \<noteq> CHR ''!''" "c \<noteq> CHR ''#''" "c \<noteq> CHR ''$''"
    using assms(3) foo by (auto simp: isalnum_def)
  have single: "resolve_field s E (Spec foo) kw = resolve_field_single s E foo kw"
    by (rule resolve_field_plain [OF assms(4)])
  have on: "auto_prefix kw \<Longrightarrow> resolve_field_single s E foo kw = Inr [''sg_'' @ foo]"
    using assms(1,5,6,7,8) c by (simp add: resolve_field_single_def foo)
  have off: "\<not> auto_prefix kw \<Longrightarrow> \<not> strict kw \<Longrightarrow> foo \<notin> dom (field_aliases e) \<Longrightarrow>
      resolve_field_single s E foo kw = Inr [foo]"
    using assms(1,5,6,7,8) c by (simp add: resolve_field_single_def foo)
  show ?thesis
    using single on off by simp
qed

theorem auto_prefix_convention_witness:
  "entities example_schema ''Shot'' = Some example_shot
   \<and> isalnum (hd ''cut_in'') \<and> CHR ''.'' \<notin> set ''cut_in''
   \<and> ''cut_in'' \<notin> dom (fields' example_shot) \<and> ''sg_cut_in'' \<in> dom (fields' example_shot)
   \<and> ''cut_in'' \<notin> dom (field_aliases example_shot)
   \<and> resolve_field example_schema ''Shot'' (Spec ''cut_in'') default_options = Inr [''sg_cut_in'']
   \<and> resolve_field example_schema ''Shot'' (Spec ''cut_in'')
        \<lparr>auto_prefix = False, implicit_aliases = True, strict = False\<rparr> = Inr [''cut_in'']"
proof -
  have h1: "entities example_schema ''Shot'' = Some example_shot"
    by (simp add: example_schema_def)
  have h2: "isalnum (hd ''cut_in'')" "CHR ''.'' \<notin> set ''cut_in''" "''cut_in'' \<noteq> []"
    "''cut_in'' \<noteq> ''id''" "''cut_in'' \<noteq> ''type''"
    by (simp_all add: isalnum_def)
  have h3: "''cut_in'' \<notin> dom (fields' example_shot)" "''sg_'' @ ''cut_in'' \<in> dom (fields' example_shot)"
    "''cut_in'' \<notin> dom (field_aliases example_shot)"
    by (simp_all add: example_shot_def)
  show ?thesis
    using h1 h2 h3
      auto_prefix_convention [OF h1 h2(3) h2(1) h2(2) h2(4) h2(5) h3(1) h3(2), of default_options]
      auto_prefix_convention [OF h1 h2(3) h2(1) h2(2) h2(4) h2(5) h3(1) h3(2),
        of "\<lparr>auto_prefix = False, implicit_aliases = True, strict = False\<rparr>"]
    by (simp add: default_options_def)
qed

section \<open>Dotted field specs\<close>

lemma isalnum_A: "isalnum CHR ''A''"
  by (simp add: isalnum_def)

lemma resolve_field_single_default_singleton:
  assumes "E \<in> dom (entities s)" and "f \<noteq> []" and "isalnum (hd f)"
  shows "\<exists>r. resolve_field_single s E f default_options = Inr [r]"
proof -
  obtain c rest where f: "f = c # rest"
    using assms(2) by (cases f) auto
  have c: "isalnum c" "c \<noteq> CHR ''!''" "c \<noteq> CHR ''#''" "c \<noteq> CHR ''$''"
    using assms(3) f by (auto simp: isalnum_def)
  obtain e where e: "entities s E = Some e"
    using assms(1) by auto
  show ?thesis
    using c e unfolding resolve_field_single_def f default_options_def
    by (auto split: option.splits)
qed

text \<open>
  Claim C1, as the code has it. In a store where \<open>A\<close> is an entity type, the entity
  tag \<open>t\<close> is \<open>[B, C]\<close> and the field spec \<open>field\<close> resolves to \<open>x\<close> on \<open>B\<close> and to
  \<open>y\<close> on \<open>C\<close>, the dotted spec \<open>A.#t.field\<close> resolved from \<open>A\<close> with the default
  options yields \<open>[r.B.x, r.C.y]\<close>, in tag order, where \<open>[r]\<close> is what the first token
  \<open>A\<close> resolves to as a field spec on \<open>A\<close>: the first token of a dotted spec is a
  field of the root entity type, and its field name heads every path.
\<close>

theorem dotted_tag_example:
  assumes "''A'' \<in> dom (entities s)"
    and "entity_tags s ''t'' = Some [b, c]"
    and "resolve_field_single s b ''field'' default_options = Inr [x]"
    and "resolve_field_single s c ''field'' default_options = Inr [y]"
  shows "\<exists>r. resolve_field_single s ''A'' ''A'' default_options = Inr [r]
           \<and> resolve_field s ''A'' (Spec ''A.#t.field'') default_options =
               Inr [r @ ''.'' @ b @ ''.'' @ x, r @ ''.'' @ c @ ''.'' @ y]"
proof -
  obtain r where r: "resolve_field_single s ''A'' ''A'' default_options = Inr [r]"
    using resolve_field_single_default_singleton [OF assms(1), of "''A''"] isalnum_A by auto
  have parts: "split_dot ''A.#t.field'' = [''A'', ''#t'', ''field'']"
    by simp
  have pairs: "spec_pairs ''A'' [''A'', ''#t'', ''field''] = [(''A'', ''A''), (''#t'', ''field'')]"
    by (simp add: spec_pairs_def xrange_by_2_def)
  have root: "resolve_entity s ''A'' (implicit_aliases default_options) (strict default_options) = Inr [''A'']"
    using assms(1) isalnum_A by (simp add: resolve_entity_def)
  have tag: "resolve_entity s ''#t'' (implicit_aliases default_options) (strict default_options) = Inr [b, c]"
    using assms(2) by (simp add: resolve_entity_def)
  have sets: "resolve_pairs s default_options [(''A'', ''A''), (''#t'', ''field'')] [] =
      Inr [[(''A'', r)], [(b, x), (c, y)]]"
    using root tag r assms(3,4) by simp
  have "resolve_field s ''A'' (Spec ''A.#t.field'') default_options =
      Inr [r @ ''.'' @ b @ ''.'' @ x, r @ ''.'' @ c @ ''.'' @ y]"
    unfolding resolve_field.simps parts Let_def pairs sets
    by (simp add: itertools_product_def render_path_def)
  with r show ?thesis by blast
qed

theorem dotted_tag_example_witness:
  "''A'' \<in> dom (entities example_schema)
   \<and> entity_tags example_schema ''t'' = Some [''B'', ''C'']
   \<and> resolve_field_single example_schema ''B'' ''field'' default_options = Inr [''x'']
   \<and> resolve_field_single example_schema ''C'' ''field'' default_options = Inr [''y'']
   \<and> resolve_field example_schema ''A'' (Spec ''A.#t.field'') default_options =
        Inr [''A.B.x'', ''A.C.y'']"
proof -
  have h1: "''A'' \<in> dom (entities example_schema)"
    and h2: "entity_tags example_schema ''t'' = Some [''B'', ''C'']"
    by (simp_all add: example_schema_def)
  have h3: "resolve_field_single example_schema ''B'' ''field'' default_options = Inr [''x'']"
    and h4: "resolve_field_single example_schema ''C'' ''field'' default_options = Inr [''y'']"
    and h5: "resolve_field_single example_schema ''A'' ''A'' default_options = Inr [''A'']"
    by (simp_all add: example_schema_def no_entity_def resolve_field_single_def isalnum_def
        default_options_def)
  show ?thesis
    using h1 h2 h3 h4 h5 dotted_tag_example [OF h1 h2 h3 h4] by simp
qed

text \<open>The paths are not \<open>B.x\<close> and \<open>C.y\<close>: in the example store they are \<open>A.B.x\<close> and \<open>A.C.y\<close>.\<close>

theorem dotted_tag_example_counterexample:
  "''A'' \<in> dom (entities example_schema)
   \<and> entity_tags example_schema ''t'' = Some [''B'', ''C'']
   \<and> resolve_field_single example_schema ''B'' ''field'' default_options = Inr [''x'']
   \<and> resolve_field_single example_schema ''C'' ''field'' default_options = Inr [''y'']
   \<and> resolve_field example_schema ''A'' (Spec ''A.#t.field'') default_options \<noteq>
        Inr [''B.x'', ''C.y'']"
  by (simp add: example_schema_def no_entity_def resolve_field_single_def resolve_entity_def
      isalnum_def default_options_def spec_pairs_def xrange_by_2_def itertools_product_def
      render_path_def)

lemma xrange_by_2_bound:
  assumes "odd n" and "i \<in> set (xrange_by_2 (Suc n))"
  shows "i < n"
proof -
  have "even i" and "i < Suc n"
    using assms(2) unfolding xrange_by_2_def by (simp_all del: upt_Suc)
  with assms(1) show ?thesis
    by (cases "i = n") auto
qed

lemma spec_pairs_drop_last:
  assumes "odd (length ps)"
  shows "spec_pairs E (ps @ [t]) = spec_pairs E ps"
proof -
  have range: "xrange_by_2 (Suc (length ps)) = xrange_by_2 (length ps)"
    using assms by (simp add: xrange_by_2_def)
  have "map (\<lambda>i. (if i \<noteq> 0 then (ps @ [t]) ! (i - 1) else E, (ps @ [t]) ! i))
          (xrange_by_2 (Suc (length ps))) =
        map (\<lambda>i. (if i \<noteq> 0 then ps ! (i - 1) else E, ps ! i)) (xrange_by_2 (Suc (length ps)))"
  proof (rule map_cong [OF refl])
    fix i assume "i \<in> set (xrange_by_2 (Suc (length ps)))"
    then have "i < length ps"
      by (rule xrange_by_2_bound [OF assms])
    then show "(if i \<noteq> 0 then (ps @ [t]) ! (i - 1) else E, (ps @ [t]) ! i) =
        (if i \<noteq> 0 then ps ! (i - 1) else E, ps ! i)"
      by (simp add: nth_append less_imp_diff_less)
  qed
  then show ?thesis
    by (simp add: spec_pairs_def range)
qed

text \<open>
  Claim C9. Two dotted field specs whose splits on the dot have the same even number of
  tokens and differ in the last token only resolve to the same result, error or list:
  the pairs are taken at the even indices, and the last index of an even-length split
  is odd.
\<close>

theorem even_length_ignores_last_token:
  assumes "split_dot spec = ps @ [t]" and "split_dot spec' = ps @ [t']"
    and "even (length (ps @ [t]))"
  shows "resolve_field s E (Spec spec) kw = resolve_field s E (Spec spec') kw"
proof -
  have odd: "odd (length ps)"
    using assms(3) by simp
  then have "length ps \<noteq> 0"
    by (metis even_zero)
  then have long: "length (ps @ [t]) \<noteq> 1" "length (ps @ [t']) \<noteq> 1"
    by simp_all
  have "spec_pairs E (ps @ [t]) = spec_pairs E (ps @ [t'])"
    by (simp add: spec_pairs_drop_last [OF odd])
  then show ?thesis
    using long by (simp add: assms(1,2) Let_def del: length_append)
qed

theorem even_length_ignores_last_token_witness:
  "split_dot ''a.B.c.D'' = [''a'', ''B'', ''c''] @ [''D'']
   \<and> split_dot ''a.B.c.!!'' = [''a'', ''B'', ''c''] @ [''!!'']
   \<and> even (length ([''a'', ''B'', ''c''] @ [''D'']))
   \<and> resolve_field example_schema ''A'' (Spec ''a.B.c.D'') default_options =
      resolve_field example_schema ''A'' (Spec ''a.B.c.!!'') default_options
   \<and> resolve_field example_schema ''A'' (Spec ''a.B.c.D'') default_options = Inr [''a.B.c'']"
proof -
  have h1: "split_dot ''a.B.c.D'' = [''a'', ''B'', ''c''] @ [''D'']"
    and h2: "split_dot ''a.B.c.!!'' = [''a'', ''B'', ''c''] @ [''!!'']"
    and h3: "even (length ([''a'', ''B'', ''c''] @ [''D'']))"
    by simp_all
  have h4: "resolve_field example_schema ''A'' (Spec ''a.B.c.D'') default_options = Inr [''a.B.c'']"
    by (simp add: example_schema_def no_entity_def resolve_field_single_def resolve_entity_def
      isalnum_def default_options_def spec_pairs_def xrange_by_2_def itertools_product_def
      render_path_def)
  show ?thesis
    using h1 h2 h3 h4 even_length_ignores_last_token [OF h1 h2 h3, of example_schema "''A''" default_options]
    by simp
qed

section \<open>Structures\<close>

text \<open>
  Claim C3, as the code has it. In a store where \<open>Shot\<close> is an entity type with the
  field alias \<open>sg_status\<close> for \<open>sg_status_list\<close> and with neither \<open>sg_status\<close> nor
  \<open>sg_sg_status\<close> among its fields, \<open>resolve_structure\<close> with the default options
  rewrites \<open>{"type": "Shot", "sg_status": "ip"}\<close> to
  \<open>{"type": "Shot", "sg_status_list": "ip"}\<close>, in either order of the two items: the
  key \<open>type\<close> resolves to itself and stays in the record.
\<close>

theorem structure_example:
  assumes "entities s ''Shot'' = Some shot"
    and "field_aliases shot ''sg_status'' = Some ''sg_status_list''"
    and "''sg_status'' \<notin> dom (fields' shot)"
    and "''sg_sg_status'' \<notin> dom (fields' shot)"
  shows "resolve_structure s None default_options
           (PDict [(''type'', PStr ''Shot''), (''sg_status'', PStr ''ip'')]) =
         Inr (PDict [(''type'', PStr ''Shot''), (''sg_status_list'', PStr ''ip'')])
       \<and> resolve_structure s None default_options
           (PDict [(''sg_status'', PStr ''ip''), (''type'', PStr ''Shot'')]) =
         Inr (PDict [(''sg_status_list'', PStr ''ip''), (''type'', PStr ''Shot'')])"
proof -
  have ty: "resolve_field s ''Shot'' (Spec ''type'') default_options = Inr [''type'']"
    using assms(1) by (simp add: resolve_field_single_def)
  have st: "resolve_field s ''Shot'' (Spec ''sg_status'') default_options = Inr [''sg_status_list'']"
    using assms by (auto simp: resolve_field_single_def isalnum_def default_options_def)
  have known: "known_entity s (PStr ''Shot'') = Inr (Some ''Shot'')"
    using assms(1) by (simp add: known_entity_def domI)
  show ?thesis
    using ty st known by (simp add: entity_type_or_get_def dict_set_def)
qed

theorem structure_example_witness:
  "entities example_schema ''Shot'' = Some example_shot
   \<and> field_aliases example_shot ''sg_status'' = Some ''sg_status_list''
   \<and> ''sg_status'' \<notin> dom (fields' example_shot)
   \<and> ''sg_sg_status'' \<notin> dom (fields' example_shot)
   \<and> resolve_structure example_schema None default_options
        (PDict [(''type'', PStr ''Shot''), (''sg_status'', PStr ''ip'')]) =
      Inr (PDict [(''type'', PStr ''Shot''), (''sg_status_list'', PStr ''ip'')])"
proof -
  have h1: "entities example_schema ''Shot'' = Some example_shot"
    by (simp add: example_schema_def)
  have h2: "field_aliases example_shot ''sg_status'' = Some ''sg_status_list''"
    and h3: "''sg_status'' \<notin> dom (fields' example_shot)"
    and h4: "''sg_sg_status'' \<notin> dom (fields' example_shot)"
    by (simp_all add: example_shot_def)
  show ?thesis
    using h1 h2 h3 h4 structure_example [OF h1 h2 h3 h4] by simp
qed

text \<open>The result is not the one-item dict \<open>{"sg_status_list": "ip"}\<close>.\<close>

theorem structure_example_counterexample:
  "entities example_schema ''Shot'' = Some example_shot
   \<and> field_aliases example_shot ''sg_status'' = Some ''sg_status_list''
   \<and> ''sg_status'' \<notin> dom (fields' example_shot)
   \<and> ''sg_sg_status'' \<notin> dom (fields' example_shot)
   \<and> resolve_structure example_schema None default_options
        (PDict [(''type'', PStr ''Shot''), (''sg_status'', PStr ''ip'')]) \<noteq>
      Inr (PDict [(''sg_status_list'', PStr ''ip'')])
   \<and> resolve_structure example_schema None default_options
        (PDict [(''sg_status'', PStr ''ip''), (''type'', PStr ''Shot'')]) \<noteq>
      Inr (PDict [(''sg_status_list'', PStr ''ip'')])"
  by (simp add: example_schema_def example_shot_def resolve_field_single_def isalnum_def
      default_options_def known_entity_def entity_type_or_get_def dict_set_def)

section \<open>The product of the hops\<close>

lemma product_step_foldl:
  "foldl (\<lambda>result pool. concat (map (\<lambda>x. map (\<lambda>y. x @ [y]) pool) result)) acc pools =
   concat (map (\<lambda>x. map ((@) x) (product_lists pools)) acc)"
proof (induction pools arbitrary: acc)
  case Nil
  show ?case by simp
next
  case (Cons pool pools)
  have inner: "\<And>x. concat (map (\<lambda>z. map ((@) z) (product_lists pools)) (map (\<lambda>y. x @ [y]) pool)) =
      map ((@) x) (concat (map (\<lambda>y. map ((#) y) (product_lists pools)) pool))"
    by (induction pool) (simp_all add: comp_def)
  have "concat (map (\<lambda>z. map ((@) z) (product_lists pools))
          (concat (map (\<lambda>x. map (\<lambda>y. x @ [y]) pool) acc))) =
        concat (map (\<lambda>x. map ((@) x) (concat (map (\<lambda>y. map ((#) y) (product_lists pools)) pool))) acc)"
    by (induction acc) (simp_all add: inner del: map_map)
  then show ?case
    by (simp add: Cons.IH)
qed

lemma itertools_product_eq: "itertools_product pools = product_lists pools"
proof -
  have "map ((@) []) (product_lists pools) = product_lists pools"
    by (induction "product_lists pools") simp_all
  then show ?thesis
    by (simp add: itertools_product_def product_step_foldl)
qed

lemma resolve_in_entity_types_eq:
  assumes "\<forall>e \<in> set es. resolve_field_single s e f kw = Inr (names e)"
  shows "resolve_in_entity_types s es f kw acc = Inr (acc @ hop_candidates es names)"
  using assms by (induction es arbitrary: acc) (simp_all add: hop_candidates_def)

lemma resolve_pairs_eq:
  assumes "\<forall>h \<in> set hops.
      resolve_entity s (fst h) (implicit_aliases kw) (strict kw) = Inr (ents h)
      \<and> (\<forall>e \<in> set (ents h). resolve_field_single s e (snd h) kw = Inr (flds h e))"
  shows "resolve_pairs s kw hops acc = Inr (acc @ map (\<lambda>h. hop_candidates (ents h) (flds h)) hops)"
  using assms
proof (induction hops arbitrary: acc)
  case Nil
  show ?case by simp
next
  case (Cons h hops)
  obtain es f where h: "h = (es, f)" by (cases h)
  have ent: "resolve_entity s es (implicit_aliases kw) (strict kw) = Inr (ents h)"
    and fld: "\<forall>e \<in> set (ents h). resolve_field_single s e f kw = Inr (flds h e)"
    using Cons.prems h by auto
  have "resolve_in_entity_types s (ents h) f kw [] = Inr (hop_candidates (ents h) (flds h))"
    using resolve_in_entity_types_eq [OF fld, of "[]"] by simp
  moreover have "resolve_pairs s kw hops (acc @ [hop_candidates (ents h) (flds h)]) =
      Inr ((acc @ [hop_candidates (ents h) (flds h)]) @ map (\<lambda>h. hop_candidates (ents h) (flds h)) hops)"
    using Cons.prems by (intro Cons.IH) simp
  ultimately show ?case
    using ent by (simp add: h)
qed

lemma render_later_hops:
  "n \<noteq> 0 \<Longrightarrow>
   map (\<lambda>(i, (entity_type, field_name)). (if i \<noteq> 0 then entity_type @ ''.'' else '''') @ field_name)
     (enumerate n pairs) =
   map (\<lambda>(entity_type, field_name). entity_type @ ''.'' @ field_name) pairs"
  by (induction pairs arbitrary: n) auto

lemma render_path_eq: "render_path pairs = spec_path pairs"
proof (cases pairs)
  case Nil
  then show ?thesis by (simp add: render_path_def)
next
  case (Cons p ps)
  obtain e f where p: "p = (e, f)" by (cases p)
  have "render_path ((e, f) # ps) =
      join ''.'' (((if (0::nat) \<noteq> 0 then e @ ''.'' else []) @ f) #
        map (\<lambda>(entity_type, field_name). entity_type @ ''.'' @ field_name) ps)"
    unfolding render_path_def enumerate_simps list.map prod.case
    by (simp only: render_later_hops [of "Suc 0"] nat.distinct not_False_eq_True)
  then show ?thesis
    by (simp add: Cons p)
qed

text \<open>The pairs the code builds by index are the hops of the specification.\<close>

lemma xrange_by_2_step:
  "xrange_by_2 (Suc (Suc n)) = 0 # map (\<lambda>i. Suc (Suc i)) (xrange_by_2 n)"
proof -
  have "[0..<Suc (Suc n)] = 0 # Suc 0 # map (\<lambda>i. Suc (Suc i)) [0..<n]"
    by (induction n) simp_all
  then show ?thesis
    by (simp add: xrange_by_2_def filter_map comp_def)
qed

lemma spec_pairs_eq_spec_hops: "spec_pairs entity_type spec_parts = spec_hops entity_type spec_parts"
proof (induction entity_type spec_parts rule: spec_hops.induct)
  case (1 entity_spec)
  show ?case by (simp add: spec_pairs_def xrange_by_2_def)
next
  case (2 entity_spec field_spec)
  show ?case by (simp add: spec_pairs_def xrange_by_2_def)
next
  case (3 entity_spec field_spec next_entity_spec tokens)
  have "spec_pairs entity_spec (field_spec # next_entity_spec # tokens) =
      (entity_spec, field_spec) # spec_pairs next_entity_spec tokens"
    by (simp add: spec_pairs_def xrange_by_2_step comp_def nth_Cons')
  then show ?case
    by (simp add: "3.IH")
qed

text \<open>
  Claim C2. Let the field spec be dotted (its split has two tokens or more; with two
  hops or more it has three or more), let its hops be the pairs of its tokens taken two
  at a time, the first with the root entity type, and let every hop resolve without an
  error: its entity spec to the entity types \<open>ents h\<close> and its field spec, on each
  of them, to the field names \<open>flds h e\<close>. Then \<open>resolve_field\<close> returns the paths of
  the cartesian product of the candidate lists of all the hops, the first hop varying
  slowest, each candidate list ordered by entity candidate first and field candidate
  second, each combination rendered with the field name of the first hop and
  \<open>entity_type.field_name\<close> of the later ones, joined with dots, repeated paths kept.
\<close>

theorem dotted_product:
  assumes "2 \<le> length (split_dot spec)"
    and "\<forall>h \<in> set (spec_hops E (split_dot spec)).
      resolve_entity s (fst h) (implicit_aliases kw) (strict kw) = Inr (ents h)
      \<and> (\<forall>e \<in> set (ents h). resolve_field_single s e (snd h) kw = Inr (flds h e))"
  shows "resolve_field s E (Spec spec) kw =
         Inr (map spec_path
                (product_lists
                   (map (\<lambda>h. hop_candidates (ents h) (flds h)) (spec_hops E (split_dot spec)))))"
proof -
  have dotted: "length (split_dot spec) \<noteq> 1"
    using assms(1) by simp
  have hops: "spec_pairs E (split_dot spec) = spec_hops E (split_dot spec)"
    by (rule spec_pairs_eq_spec_hops)
  have sets: "resolve_pairs s kw (spec_hops E (split_dot spec)) [] =
      Inr (map (\<lambda>h. hop_candidates (ents h) (flds h)) (spec_hops E (split_dot spec)))"
    using resolve_pairs_eq [OF assms(2), of "[]"] by simp
  have render: "map render_path = map spec_path"
    by (rule ext) (simp add: render_path_eq)
  show ?thesis
    using dotted by (simp add: Let_def hops sets itertools_product_eq render)
qed

theorem dotted_product_witness:
  "5 \<le> length (split_dot ''#type.#tt.field.C.field'')
   \<and> spec_hops ''Shot'' (split_dot ''#type.#tt.field.C.field'') =
        [(''Shot'', ''#type''), (''#tt'', ''field''), (''C'', ''field'')]
   \<and> resolve_entity example_schema ''Shot'' True False = Inr [''Shot'']
   \<and> resolve_field_single example_schema ''Shot'' ''#type'' default_options = Inr [''code'', ''sg_cut_in'']
   \<and> resolve_entity example_schema ''#tt'' True False = Inr [''B'', ''C'', ''B'']
   \<and> resolve_entity example_schema ''C'' True False = Inr [''C'']
   \<and> resolve_field example_schema ''Shot'' (Spec ''#type.#tt.field.C.field'') default_options =
      Inr [''code.B.x.C.y'', ''code.C.y.C.y'', ''code.B.x.C.y'',
           ''sg_cut_in.B.x.C.y'', ''sg_cut_in.C.y.C.y'', ''sg_cut_in.B.x.C.y'']"
proof -
  let ?ents = "\<lambda>h. if fst h = ''Shot'' then [''Shot'']
    else if fst h = ''C'' then [''C''] else [''B'', ''C'', ''B'']"
  let ?flds = "\<lambda>(h :: string \<times> string) e.
    if e = ''Shot'' then [''code'', ''sg_cut_in''] else if e = ''B'' then [''x''] else [''y'']"
  have h0: "spec_hops ''Shot'' (split_dot ''#type.#tt.field.C.field'') =
      [(''Shot'', ''#type''), (''#tt'', ''field''), (''C'', ''field'')]"
    by simp
  have h1: "2 \<le> length (split_dot ''#type.#tt.field.C.field'')"
    by simp
  have e1: "resolve_entity example_schema ''Shot'' True False = Inr [''Shot'']"
    and e2: "resolve_entity example_schema ''#tt'' True False = Inr [''B'', ''C'', ''B'']"
    and e3: "resolve_entity example_schema ''C'' True False = Inr [''C'']"
    by (simp_all add: example_schema_def resolve_entity_def isalnum_def)
  have f1: "resolve_field_single example_schema ''Shot'' ''#type'' default_options = Inr [''code'', ''sg_cut_in'']"
    and f2: "resolve_field_single example_schema ''B'' ''field'' default_options = Inr [''x'']"
    and f3: "resolve_field_single example_schema ''C'' ''field'' default_options = Inr [''y'']"
    by (simp_all add: example_schema_def example_shot_def no_entity_def resolve_field_single_def
        isalnum_def default_options_def)
  have h2: "\<forall>h \<in> set (spec_hops ''Shot'' (split_dot ''#type.#tt.field.C.field'')).
      resolve_entity example_schema (fst h) (implicit_aliases default_options) (strict default_options) = Inr (?ents h)
      \<and> (\<forall>e \<in> set (?ents h). resolve_field_single example_schema e (snd h) default_options = Inr (?flds h e))"
    unfolding h0 using e1 e2 e3 f1 f2 f3 by (simp add: default_options_def)
  have "resolve_field example_schema ''Shot'' (Spec ''#type.#tt.field.C.field'') default_options =
      Inr [''code.B.x.C.y'', ''code.C.y.C.y'', ''code.B.x.C.y'',
           ''sg_cut_in.B.x.C.y'', ''sg_cut_in.C.y.C.y'', ''sg_cut_in.B.x.C.y'']"
    unfolding dotted_product [OF h1 h2] h0
    by (simp add: hop_candidates_def)
  then show ?thesis
    using h0 e1 e2 e3 f1 by simp
qed

section \<open>Options inside the structure rewriter\<close>

lemmas eval_defs = example_schema_def example_shot_def no_entity_def resolve_field_single_def
  resolve_entity_def isalnum_def default_options_def known_entity_def entity_type_or_get_def
  dict_set_def

lemma foldl_dict_set_map_of:
  "map_of (foldl (\<lambda>new_values' field. dict_set new_values' field v) new_values names) =
   map_of (rev (map (\<lambda>name. (name, v)) names) @ new_values)"
proof (induction names arbitrary: new_values)
  case Nil
  show ?case by simp
next
  case (Cons name names)
  have "map_of (dict_set new_values name v) = map_of ((name, v) # new_values)"
    by (simp add: dict_set_def update_conv')
  then show ?case
    by (simp add: Cons.IH map_of_append)
qed

lemma foldl_dict_set_distinct:
  "distinct (map fst new_values) \<Longrightarrow>
   distinct (map fst (foldl (\<lambda>new_values' field. dict_set new_values' field v) new_values names))"
  by (induction names arbitrary: new_values) (simp_all add: dict_set_def distinct_update)

lemma resolve_record_writes:
  assumes "list_all2 (record_item s E kw) x rs" and "distinct (map fst new_values)"
  shows "\<exists>out. resolve_record s E kw x new_values = Inr out \<and> distinct (map fst out)
           \<and> map_of out = map_of (rev (written_items rs) @ new_values)"
  using assms
proof (induction x rs arbitrary: new_values rule: list_all2_induct)
  case Nil
  then show ?case by (simp add: written_items_def)
next
  case (Cons item x r rs)
  obtain k v where item: "item = (k, v)" by (cases item)
  obtain names v' where r: "r = (names, v')" by (cases r)
  let ?next = "foldl (\<lambda>new_values' field. dict_set new_values' field v') new_values names"
  have val: "resolve_structure s None default_options v = Inr v'"
    and key: "resolve_field s E (Spec k) kw = Inr names"
    using Cons.hyps(1) by (simp_all add: record_item_def item r)
  have "distinct (map fst ?next)"
    using Cons.prems by (rule foldl_dict_set_distinct)
  from Cons.IH [OF this] obtain out where out: "resolve_record s E kw x ?next = Inr out"
    and distinct: "distinct (map fst out)"
    and written: "map_of out = map_of (rev (written_items rs) @ ?next)"
    by blast
  have step: "resolve_record s E kw (item # x) new_values = Inr out"
    unfolding item resolve_record.simps val key using out by simp
  have "map_of (rev (written_items rs) @ ?next) =
      map_of (rev (written_items (r # rs)) @ new_values)"
    by (simp add: map_of_append foldl_dict_set_map_of written_items_def r)
  with step distinct written show ?case
    by simp
qed

lemma resolve_record_items:
  "resolve_record s E kw x new_values = Inr out \<Longrightarrow> \<exists>rs. list_all2 (record_item s E kw) x rs"
proof (induction x arbitrary: new_values)
  case Nil
  show ?case by simp
next
  case (Cons item x)
  obtain k v where item: "item = (k, v)" by (cases item)
  from Cons.prems obtain v' names where val: "resolve_structure s None default_options v = Inr v'"
    and key: "resolve_field s E (Spec k) kw = Inr names"
    and rest: "resolve_record s E kw x
        (foldl (\<lambda>new_values' field. dict_set new_values' field v') new_values names) = Inr out"
    unfolding item by (auto simp del: resolve_field.simps split: sum.splits)
  from Cons.IH [OF rest] obtain rs where "list_all2 (record_item s E kw) x rs" ..
  then have "list_all2 (record_item s E kw) (item # x) ((names, v') # rs)"
    using val key by (simp add: record_item_def item)
  then show ?case ..
qed

lemma resolve_record_options:
  assumes "\<forall>item \<in> set x. resolve_field s E (Spec (fst item)) kw' = resolve_field s E (Spec (fst item)) kw"
  shows "resolve_record s E kw' x new_values = resolve_record s E kw x new_values"
  using assms
proof (induction x arbitrary: new_values)
  case Nil
  show ?case by simp
next
  case (Cons item x)
  obtain k v where item: "item = (k, v)" by (cases item)
  have key: "resolve_field s E (Spec k) kw' = resolve_field s E (Spec k) kw"
    using Cons.prems item by (simp del: resolve_field.simps)
  have rest: "\<And>new_values. resolve_record s E kw' x new_values = resolve_record s E kw x new_values"
    using Cons.prems by (intro Cons.IH) (simp del: resolve_field.simps)
  show ?case
    unfolding item resolve_record.simps key rest ..
qed

lemma resolve_members_each:
  "resolve_members s kw xs = Inr ys \<Longrightarrow>
   list_all2 (\<lambda>x y. resolve_structure s None kw x = Inr y) xs ys"
  by (induction xs arbitrary: ys) (auto split: sum.splits)

lemma resolve_values_each:
  "resolve_values s kw x = Inr out \<Longrightarrow>
   list_all2 (\<lambda>item item'. fst item' = fst item
      \<and> resolve_structure s None kw (snd item) = Inr (snd item')) x out"
  by (induction x arbitrary: out) (auto split: sum.splits)

lemma resolve_members_all:
  "list_all2 (\<lambda>x y. resolve_structure s None kw x = Inr y) xs ys \<Longrightarrow>
   resolve_members s kw xs = Inr ys"
  by (induction xs ys rule: list_all2_induct) simp_all

lemma resolve_values_all:
  "list_all2 (\<lambda>item item'. fst item' = fst item
      \<and> resolve_structure s None kw (snd item) = Inr (snd item')) x out \<Longrightarrow>
   resolve_values s kw x = Inr out"
proof (induction x out rule: list_all2_induct)
  case Nil
  show ?case by simp
next
  case (Cons item x item' out)
  obtain k v where item: "item = (k, v)" by (cases item)
  obtain k' v' where item': "item' = (k', v')" by (cases item')
  show ?case
    using Cons.hyps(1) Cons.IH by (simp add: item item')
qed

lemma resolve_members_iff:
  "resolve_members s kw xs = Inr ys \<longleftrightarrow>
   list_all2 (\<lambda>x y. resolve_structure s None kw x = Inr y) xs ys"
  using resolve_members_each resolve_members_all by blast

lemma resolve_values_iff:
  "resolve_values s kw x = Inr out \<longleftrightarrow>
   list_all2 (\<lambda>item item'. fst item' = fst item
      \<and> resolve_structure s None kw (snd item) = Inr (snd item')) x out"
  using resolve_values_each resolve_values_all by blast

text \<open>
  Claim C10. Let \<open>resolve_structure\<close> take a dict for an entity record of type \<open>E\<close>.
  If every value of the dict is rewritten without error under the default options and
  every key resolves without error under the caller's options, the call returns the
  dict that holds each rewritten value under each name its key resolved to, a later item
  winning over an earlier one, and nothing else; and it returns only then. Its result
  is the same for any two choices of options under which the keys resolve alike. A dict
  that is no entity record, a list and a tuple are rewritten value by value, member by
  member, under the caller's options.
\<close>

theorem option_reset_in_entity_records:
  "(known_entity s (entity_type_or_get entity_type x) = Inr (Some E) \<longrightarrow>
      (\<forall>rs. list_all2 (record_item s E kw) x rs \<longrightarrow>
         (\<exists>out. resolve_structure s entity_type kw (PDict x) = Inr (PDict out)
            \<and> distinct (map fst out)
            \<and> map_of out = map_of (rev (written_items rs))))
      \<and> (\<forall>y. resolve_structure s entity_type kw (PDict x) = Inr y \<longrightarrow>
            (\<exists>rs. list_all2 (record_item s E kw) x rs))
      \<and> (\<forall>kw'. (\<forall>item \<in> set x. resolve_field s E (Spec (fst item)) kw' =
                                  resolve_field s E (Spec (fst item)) kw) \<longrightarrow>
             resolve_structure s entity_type kw' (PDict x) = resolve_structure s entity_type kw (PDict x)))
   \<and> (known_entity s (entity_type_or_get entity_type x) = Inr None \<longrightarrow>
        (\<forall>out. resolve_structure s entity_type kw (PDict x) = Inr (PDict out) \<longleftrightarrow>
           list_all2 (\<lambda>item item'. fst item' = fst item
              \<and> resolve_structure s None kw (snd item) = Inr (snd item')) x out))
   \<and> (\<forall>ys. resolve_structure s entity_type kw (PList xs) = Inr (PList ys) \<longleftrightarrow>
         list_all2 (\<lambda>x y. resolve_structure s None kw x = Inr y) xs ys)
   \<and> (\<forall>ys. resolve_structure s entity_type kw (PTuple xs) = Inr (PTuple ys) \<longleftrightarrow>
         list_all2 (\<lambda>x y. resolve_structure s None kw x = Inr y) xs ys)"
proof (intro conjI impI allI)
  fix rs
  assume known: "known_entity s (entity_type_or_get entity_type x) = Inr (Some E)"
    and "list_all2 (record_item s E kw) x rs"
  then obtain out where "resolve_record s E kw x [] = Inr out" "distinct (map fst out)"
    "map_of out = map_of (rev (written_items rs))"
    using resolve_record_writes [of s E kw x rs "[]"] by auto
  with known show "\<exists>out. resolve_structure s entity_type kw (PDict x) = Inr (PDict out)
      \<and> distinct (map fst out) \<and> map_of out = map_of (rev (written_items rs))"
    by simp
next
  fix y
  assume known: "known_entity s (entity_type_or_get entity_type x) = Inr (Some E)"
    and "resolve_structure s entity_type kw (PDict x) = Inr y"
  then obtain out where "resolve_record s E kw x [] = Inr out"
    by (auto split: sum.splits)
  then show "\<exists>rs. list_all2 (record_item s E kw) x rs"
    by (rule resolve_record_items)
next
  fix kw'
  assume known: "known_entity s (entity_type_or_get entity_type x) = Inr (Some E)"
    and "\<forall>item \<in> set x. resolve_field s E (Spec (fst item)) kw' = resolve_field s E (Spec (fst item)) kw"
  then have "resolve_record s E kw' x [] = resolve_record s E kw x []"
    by (intro resolve_record_options)
  with known show "resolve_structure s entity_type kw' (PDict x) = resolve_structure s entity_type kw (PDict x)"
    by simp
next
  fix out
  assume "known_entity s (entity_type_or_get entity_type x) = Inr None"
  then show "resolve_structure s entity_type kw (PDict x) = Inr (PDict out) \<longleftrightarrow>
      list_all2 (\<lambda>item item'. fst item' = fst item
        \<and> resolve_structure s None kw (snd item) = Inr (snd item')) x out"
    using resolve_values_iff [of s kw x out] by (auto split: sum.splits)
next
  fix ys
  show "resolve_structure s entity_type kw (PList xs) = Inr (PList ys) \<longleftrightarrow>
      list_all2 (\<lambda>x y. resolve_structure s None kw x = Inr y) xs ys"
    using resolve_members_iff [of s kw xs ys] by (auto split: sum.splits)
next
  fix ys
  show "resolve_structure s entity_type kw (PTuple xs) = Inr (PTuple ys) \<longleftrightarrow>
      list_all2 (\<lambda>x y. resolve_structure s None kw x = Inr y) xs ys"
    using resolve_members_iff [of s kw xs ys] by (auto split: sum.splits)
qed

theorem option_reset_in_entity_records_witness:
  "known_entity example_schema (entity_type_or_get None nested_items) = Inr (Some ''Shot'')
   \<and> list_all2 (record_item example_schema ''Shot'' strict_options) nested_items
        [([''type''], PStr ''Shot''), ([''code''], loose_record)]
   \<and> resolve_structure example_schema None strict_options loose_record = Inl (NotAField ''nope'' ''Shot'')
   \<and> (\<exists>out. resolve_structure example_schema None strict_options (PDict nested_items) = Inr (PDict out)
         \<and> distinct (map fst out)
         \<and> map_of out = map_of (rev (written_items [([''type''], PStr ''Shot''), ([''code''], loose_record)])))
   \<and> resolve_structure example_schema None strict_options (PDict nested_items) = Inr (PDict nested_items)
   \<and> known_entity example_schema (entity_type_or_get None tagged_items) = Inr (Some ''Shot'')
   \<and> list_all2 (record_item example_schema ''Shot'' strict_options) tagged_items
        [([''type''], PStr ''Shot''), ([''code'', ''sg_cut_in''], PInt 1), ([''sg_cut_in''], PInt 2)]
   \<and> (\<exists>out. resolve_structure example_schema None strict_options (PDict tagged_items) = Inr (PDict out)
         \<and> distinct (map fst out)
         \<and> map_of out = map_of (rev (written_items
              [([''type''], PStr ''Shot''), ([''code'', ''sg_cut_in''], PInt 1), ([''sg_cut_in''], PInt 2)])))
   \<and> resolve_structure example_schema None strict_options (PDict tagged_items) =
        Inr (PDict [(''type'', PStr ''Shot''), (''code'', PInt 1), (''sg_cut_in'', PInt 2)])
   \<and> known_entity example_schema (entity_type_or_get None [(''data'', example_record)]) = Inr None
   \<and> resolve_structure example_schema None strict_options (PDict [(''data'', example_record)]) =
        Inr (PDict [(''data'', example_record)])
   \<and> resolve_structure example_schema None strict_options (PDict [(''data'', loose_record)]) =
        Inl (NotAField ''nope'' ''Shot'')
   \<and> resolve_structure example_schema None strict_options (PList [example_record]) =
        Inr (PList [example_record])
   \<and> resolve_structure example_schema None strict_options (PTuple [loose_record]) =
        Inl (NotAField ''nope'' ''Shot'')
   \<and> list_all2 (\<lambda>x y. resolve_structure example_schema None strict_options x = Inr y)
        [example_record] [example_record]"
proof -
  have loose: "resolve_structure example_schema None strict_options loose_record =
      Inl (NotAField ''nope'' ''Shot'')"
    by (simp add: loose_record_def strict_options_def eval_defs)
  have lenient: "resolve_structure example_schema None default_options loose_record = Inr loose_record"
    by (simp add: loose_record_def eval_defs)
  have h1: "known_entity example_schema (entity_type_or_get None nested_items) = Inr (Some ''Shot'')"
    by (simp add: nested_items_def eval_defs)
  have h2: "list_all2 (record_item example_schema ''Shot'' strict_options) nested_items
      [([''type''], PStr ''Shot''), ([''code''], loose_record)]"
    using lenient by (simp add: nested_items_def record_item_def strict_options_def eval_defs)
  have h3: "resolve_structure example_schema None strict_options (PDict nested_items) =
      Inr (PDict nested_items)"
    by (simp add: nested_items_def loose_record_def strict_options_def eval_defs)
  have t1: "known_entity example_schema (entity_type_or_get None tagged_items) = Inr (Some ''Shot'')"
    by (simp add: tagged_items_def eval_defs)
  have t2: "list_all2 (record_item example_schema ''Shot'' strict_options) tagged_items
      [([''type''], PStr ''Shot''), ([''code'', ''sg_cut_in''], PInt 1), ([''sg_cut_in''], PInt 2)]"
    by (simp add: tagged_items_def record_item_def strict_options_def eval_defs)
  have t3: "resolve_structure example_schema None strict_options (PDict tagged_items) =
      Inr (PDict [(''type'', PStr ''Shot''), (''code'', PInt 1), (''sg_cut_in'', PInt 2)])"
    by (simp add: tagged_items_def strict_options_def eval_defs)
  have h4: "known_entity example_schema (entity_type_or_get None [(''data'', example_record)]) = Inr None"
    by (simp add: eval_defs)
  have strict_ok: "resolve_structure example_schema None strict_options example_record = Inr example_record"
    by (simp add: example_record_def strict_options_def eval_defs)
  have h5: "resolve_structure example_schema None strict_options (PDict [(''data'', example_record)]) =
      Inr (PDict [(''data'', example_record)])"
    using h4 strict_ok by simp
  have h6: "resolve_structure example_schema None strict_options (PDict [(''data'', loose_record)]) =
      Inl (NotAField ''nope'' ''Shot'')"
    using loose by (simp add: loose_record_def eval_defs)
  have h7: "resolve_structure example_schema None strict_options (PList [example_record]) =
      Inr (PList [example_record])"
    using strict_ok by simp
  have h8: "resolve_structure example_schema None strict_options (PTuple [loose_record]) =
      Inl (NotAField ''nope'' ''Shot'')"
    using loose by simp
  note nested = option_reset_in_entity_records [where s = example_schema and entity_type = None
      and x = nested_items and E = "''Shot''" and kw = strict_options and xs = "[example_record]"]
  note tagged = option_reset_in_entity_records [where s = example_schema and entity_type = None
      and x = tagged_items and E = "''Shot''" and kw = strict_options and xs = "[]"]
  note written = nested [THEN conjunct1, THEN mp, OF h1, THEN conjunct1, THEN spec, THEN mp, OF h2]
  note later_wins = tagged [THEN conjunct1, THEN mp, OF t1, THEN conjunct1, THEN spec, THEN mp, OF t2]
  note members = nested [THEN conjunct2, THEN conjunct2, THEN conjunct1, THEN spec, THEN iffD1, OF h7]
  show ?thesis
    by (intro conjI) (rule loose h1 h2 h3 t1 t2 t3 h4 h5 h6 h7 h8 written later_wins members)+
qed

section \<open>Rewriting twice\<close>

lemma canonical_field_resolves:
  assumes "canonical_field s E k" and "E \<in> dom (entities s)"
  shows "resolve_field s E (Spec k) kw = Inr [k]"
proof -
  obtain e where e: "entities s E = Some e"
    using assms(2) by auto
  show ?thesis
  proof (cases "k = ''id'' \<or> k = ''type''")
    case True
    then show ?thesis
      using e by (auto simp: resolve_field_single_def)
  next
    case False
    then have plain: "plain_name k" and field: "k \<in> dom (fields' e)"
      using assms(1) e by (auto simp: canonical_field_def)
    obtain c rest where k: "k = c # rest"
      using plain by (cases k) (auto simp: plain_name_def)
    have c: "isalnum c" "c \<noteq> CHR ''!''" "c \<noteq> CHR ''#''" "c \<noteq> CHR ''$''"
      using plain k by (auto simp: plain_name_def isalnum_def)
    have "resolve_field s E (Spec k) kw = resolve_field_single s E k kw"
      using plain by (simp add: plain_name_def split_dot_no_dot)
    also have "\<dots> = Inr [k]"
      using e c field False unfolding resolve_field_single_def k by simp
    finally show ?thesis .
  qed
qed

lemma update_new_key:
  "k \<notin> fst ` set al \<Longrightarrow> AList.update k v al = al @ [(k, v)]"
  by (induction al) auto

lemma resolve_members_fixed:
  assumes "\<And>x kw y. x \<in> set xs \<Longrightarrow> keys_canonical s x \<Longrightarrow> distinct_keys x \<Longrightarrow>
      resolve_structure s None kw x = Inr y \<Longrightarrow> y = x"
    and "list_all (keys_canonical s) xs" and "list_all distinct_keys xs"
    and "resolve_members s kw xs = Inr ys"
  shows "ys = xs"
  using assms
proof (induction xs arbitrary: ys)
  case Nil
  then show ?case by simp
next
  case (Cons x xs)
  from Cons.prems(4) obtain y ys' where y: "resolve_structure s None kw x = Inr y"
    and ys': "resolve_members s kw xs = Inr ys'" and ys: "ys = y # ys'"
    by (auto split: sum.splits)
  have "y = x"
    using Cons.prems(1) [of x kw y] Cons.prems(2,3) y by simp
  moreover have "ys' = xs"
    using Cons.prems(1,2,3) ys' by (intro Cons.IH) auto
  ultimately show ?case
    using ys by simp
qed

lemma resolve_values_fixed:
  assumes "\<And>item kw y. item \<in> set x \<Longrightarrow> keys_canonical s (snd item) \<Longrightarrow> distinct_keys (snd item) \<Longrightarrow>
      resolve_structure s None kw (snd item) = Inr y \<Longrightarrow> y = snd item"
    and "list_all (\<lambda>item. keys_canonical s (snd item)) x"
    and "list_all (\<lambda>item. distinct_keys (snd item)) x"
    and "resolve_values s kw x = Inr out"
  shows "out = x"
  using assms
proof (induction x arbitrary: out)
  case Nil
  then show ?case by simp
next
  case (Cons item x)
  obtain k v where item: "item = (k, v)" by (cases item)
  from Cons.prems(4) obtain v' out' where v': "resolve_structure s None kw v = Inr v'"
    and out': "resolve_values s kw x = Inr out'" and out: "out = (k, v') # out'"
    unfolding item by (auto split: sum.splits)
  have "v' = v"
    using Cons.prems(1) [of item kw v'] Cons.prems(2,3) v' item by simp
  moreover have "out' = x"
    using Cons.prems(1,2,3) out' by (intro Cons.IH) auto
  ultimately show ?case
    using out item by simp
qed

lemma resolve_record_fixed:
  assumes "\<And>item kw y. item \<in> set x \<Longrightarrow> keys_canonical s (snd item) \<Longrightarrow> distinct_keys (snd item) \<Longrightarrow>
      resolve_structure s None kw (snd item) = Inr y \<Longrightarrow> y = snd item"
    and "E \<in> dom (entities s)"
    and "list_all (\<lambda>item. canonical_field s E (fst item)) x"
    and "list_all (\<lambda>item. keys_canonical s (snd item)) x"
    and "list_all (\<lambda>item. distinct_keys (snd item)) x"
    and "distinct (map fst x)"
    and "fst ` set new_values \<inter> fst ` set x = {}"
    and "resolve_record s E kw x new_values = Inr out"
  shows "out = new_values @ x"
  using assms
proof (induction x arbitrary: new_values out)
  case Nil
  then show ?case by simp
next
  case (Cons item x)
  obtain k v where item: "item = (k, v)" by (cases item)
  have key: "resolve_field s E (Spec k) kw = Inr [k]"
    using Cons.prems(2,3) item by (intro canonical_field_resolves) simp_all
  from Cons.prems(8) obtain v' where v': "resolve_structure s None default_options v = Inr v'"
    and rest: "resolve_record s E kw x (dict_set new_values k v') = Inr out"
    unfolding item by (auto simp: key simp del: resolve_field.simps split: sum.splits)
  have v: "v' = v"
    using Cons.prems(1) [of item default_options v'] Cons.prems(4,5) v' item by simp
  have fresh: "k \<notin> fst ` set new_values"
    using Cons.prems(7) item by auto
  then have set: "dict_set new_values k v' = new_values @ [(k, v)]"
    by (simp add: dict_set_def update_new_key v)
  have disjoint: "fst ` set (new_values @ [(k, v)]) \<inter> fst ` set x = {}"
    using Cons.prems(6,7) item by auto
  have "out = (new_values @ [(k, v)]) @ x"
    using Cons.prems(1,2,3,4,5,6) disjoint rest unfolding set
    by (intro Cons.IH) auto
  then show ?case
    by (simp add: item)
qed

lemma resolve_structure_fixed:
  assumes "keys_canonical s x" and "distinct_keys x" and "resolve_structure s None kw x = Inr y"
  shows "y = x"
  using assms
proof (induction x arbitrary: kw y)
  case (PList xs)
  from PList.prems(3) obtain ys where ys: "resolve_members s kw xs = Inr ys" and y: "y = PList ys"
    by (auto split: sum.splits)
  have "ys = xs"
    using PList.IH PList.prems(1,2) ys by (intro resolve_members_fixed [of xs s kw ys]) auto
  then show ?case
    using y by simp
next
  case (PTuple xs)
  from PTuple.prems(3) obtain ys where ys: "resolve_members s kw xs = Inr ys" and y: "y = PTuple ys"
    by (auto split: sum.splits)
  have "ys = xs"
    using PTuple.IH PTuple.prems(1,2) ys by (intro resolve_members_fixed [of xs s kw ys]) auto
  then show ?case
    using y by simp
next
  case (PDict x)
  have IH: "\<And>item kw y. item \<in> set x \<Longrightarrow> keys_canonical s (snd item) \<Longrightarrow>
      distinct_keys (snd item) \<Longrightarrow> resolve_structure s None kw (snd item) = Inr y \<Longrightarrow> y = snd item"
  proof -
    fix item :: "string \<times> pyval" and kw y
    assume "item \<in> set x" "keys_canonical s (snd item)" "distinct_keys (snd item)"
      "resolve_structure s None kw (snd item) = Inr y"
    moreover have "snd item \<in> Basic_BNFs.snds item"
      by (cases item) simp
    ultimately show "y = snd item"
      using PDict.IH by blast
  qed
  have vals: "list_all (\<lambda>item. keys_canonical s (snd item)) x"
    "list_all (\<lambda>item. distinct_keys (snd item)) x" "distinct (map fst x)"
    using PDict.prems(1,2) by simp_all
  show ?case
  proof (cases "known_entity s (entity_type_or_get None x)")
    case (Inl e)
    then show ?thesis
      using PDict.prems(3) by simp
  next
    case (Inr found)
    show ?thesis
    proof (cases found)
      case None
      with Inr PDict.prems(3) obtain out where out: "resolve_values s kw x = Inr out"
        and y: "y = PDict out"
        by (auto split: sum.splits)
      have "out = x"
        using IH vals(1,2) out by (rule resolve_values_fixed)
      then show ?thesis
        using y by simp
    next
      case (Some E)
      with Inr PDict.prems(3) obtain out where out: "resolve_record s E kw x [] = Inr out"
        and y: "y = PDict out"
        by (auto split: sum.splits)
      have known: "E \<in> dom (entities s)"
        using Inr Some by (auto simp: known_entity_def split: if_splits pyval.splits)
      have keys: "list_all (\<lambda>item. canonical_field s E (fst item)) x"
        using PDict.prems(1) Inr Some by simp
      have empty: "fst ` set ([] :: (string \<times> pyval) list) \<inter> fst ` set x = {}"
        by simp
      have "out = [] @ x"
        using IH known keys vals(1,2,3) empty out by (rule resolve_record_fixed)
      then show ?thesis
        using y by simp
    qed
  qed
qed simp_all

text \<open>
  Claim C8, as the code has it. Let every key that gets resolved against an entity
  type be canonical for it: \<open>id\<close>, \<open>type\<close>, or a field of the entity type whose name
  is plain. If \<open>resolve_structure\<close> returns \<open>y\<close> for such a value, it returns \<open>y\<close>
  for \<open>y\<close>.
\<close>

theorem resolve_structure_idempotent:
  assumes "keys_canonical s x" and "distinct_keys x"
    and "resolve_structure s None kw x = Inr y"
  shows "resolve_structure s None kw y = Inr y"
  using assms resolve_structure_fixed [OF assms] by simp

theorem resolve_structure_idempotent_witness:
  "keys_canonical example_schema example_record
   \<and> distinct_keys example_record
   \<and> resolve_structure example_schema None default_options example_record = Inr example_record"
proof -
  have h1: "keys_canonical example_schema example_record"
    by (simp add: example_record_def canonical_field_def plain_name_def eval_defs)
  have h2: "distinct_keys example_record"
    by (simp add: example_record_def)
  have h3: "resolve_structure example_schema None default_options example_record = Inr example_record"
    by (simp add: example_record_def eval_defs)
  show ?thesis
    using h1 h2 resolve_structure_idempotent [OF h1 h2 h3] by simp
qed

text \<open>
  With a field named \<open>!a\<close> beside a field \<open>sg_a\<close>, all keys of the record are fields
  of its entity type, and rewriting the result once more changes it: \<open>!a\<close> is
  unescaped to \<open>a\<close>, which the second pass prefixes.
\<close>

theorem resolve_structure_idempotent_counterexample:
  "entities sigil_schema ''Task'' = Some sigil_task
   \<and> ''type'' \<in> dom (fields' sigil_task)
   \<and> ''!a'' \<in> dom (fields' sigil_task)
   \<and> resolve_structure sigil_schema None default_options
        (PDict [(''type'', PStr ''Task''), (''!a'', PInt 1)]) =
      Inr (PDict [(''type'', PStr ''Task''), (''a'', PInt 1)])
   \<and> resolve_structure sigil_schema None default_options
        (PDict [(''type'', PStr ''Task''), (''a'', PInt 1)]) =
      Inr (PDict [(''type'', PStr ''Task''), (''sg_a'', PInt 1)])
   \<and> PDict [(''type'', PStr ''Task''), (''a'', PInt 1)] \<noteq>
      PDict [(''type'', PStr ''Task''), (''sg_a'', PInt 1)]"
  by (simp add: sigil_schema_def sigil_task_def resolve_field_single_def isalnum_def
      default_options_def known_entity_def entity_type_or_get_def dict_set_def)

end
